theory Spec2Isabelle
  imports Main "HOL-Library.Word"
begin

unbundle bit_operations_syntax

section \<open>Python values\<close>

text \<open>
  The functions of \<^verbatim>\<open>playwright/js_handle.py\<close> take and return \<^verbatim>\<open>Any\<close>. The
  type \<open>pyval\<close> is the part of Python's values the marshalling code tells apart:
  \<^verbatim>\<open>None\<close>, \<^verbatim>\<open>bool\<close>, \<^verbatim>\<open>int\<close>, \<^verbatim>\<open>float\<close>, \<^verbatim>\<open>str\<close>, \<^verbatim>\<open>datetime\<close>, \<^verbatim>\<open>list\<close>,
  \<^verbatim>\<open>dict\<close> and \<^verbatim>\<open>JSHandle\<close>, and two kinds of value that no \<^verbatim>\<open>isinstance\<close> test of the
  code recognises: tuples, and opaque objects without any container protocol.

  A \<^verbatim>\<open>float\<close> is its IEEE-754 binary64 bit pattern. A \<^verbatim>\<open>str\<close> is a \<open>string\<close>, one
  \<open>char\<close> per code point. A \<^verbatim>\<open>dict\<close> is an association list in insertion order; its keys
  are text, integers or booleans, and in a dictionary that Python can build no two
  keys are equal (\<open>dict_wf\<close> below).
\<close>

type_synonym pyfloat = "64 word"

datatype pykey = KStr string | KInt int | KBool bool

text \<open>
  A \<^verbatim>\<open>JSHandle\<close> is known by the channel that \<^verbatim>\<open>ChannelOwner\<close> gives it (its \<^verbatim>\<open>guid\<close>) and
  by its preview text.
\<close>

datatype channel = Channel string

record js_handle =
  h_channel :: channel
  h_preview :: string

text \<open>
  A \<^verbatim>\<open>datetime\<close> has its fields; \<open>utcoffset\<close> is \<open>None\<close> for a naive value and the
  offset from UTC in microseconds for one with a fixed-offset \<^verbatim>\<open>timezone\<close>.
\<close>

record datetime =
  year :: nat
  month :: nat
  day :: nat
  hour :: nat
  minute :: nat
  second :: nat
  microsecond :: nat
  utcoffset :: "int option"

datatype pyval =
    PNone
  | PBool bool
  | PInt int
  | PFloat pyfloat
  | PStr string
  | PDatetime datetime
  | PList "pyval list"
  | PTuple "pyval list"
  | PDict "(pykey \<times> pyval) list"
  | PHandle js_handle
  | PObject nat

type_synonym pydict = "(pykey \<times> pyval) list"

text \<open>
  What a call can raise: \<open>Error\<close> is \<^verbatim>\<open>playwright.helper.Error\<close> with its message, the
  others are Python's built-in exceptions.
\<close>

datatype pyerror = Error string | TypeError | ValueError | IndexError | KeyError

subsection \<open>Floats\<close>

definition float_inf :: pyfloat where
  "float_inf = 0x7FF0000000000000"

definition float_neg_inf :: pyfloat where
  "float_neg_inf = 0xFFF0000000000000"

definition float_pos_zero :: pyfloat where
  "float_pos_zero = 0x0000000000000000"

definition float_neg_zero :: pyfloat where
  "float_neg_zero = 0x8000000000000000"

definition float_nan :: pyfloat where
  "float_nan = 0x7FF8000000000000"

definition isnan :: "pyfloat \<Rightarrow> bool" where
  "isnan x = (x AND 0x7FF0000000000000 = 0x7FF0000000000000 \<and> x AND 0x000FFFFFFFFFFFFF \<noteq> 0)"

definition isinf :: "pyfloat \<Rightarrow> bool" where
  "isinf x = (x AND 0x7FFFFFFFFFFFFFFF = 0x7FF0000000000000)"

definition is_zero :: "pyfloat \<Rightarrow> bool" where
  "is_zero x = (x AND 0x7FFFFFFFFFFFFFFF = 0)"

definition sign_bit :: "pyfloat \<Rightarrow> bool" where
  "sign_bit x = (x AND 0x8000000000000000 \<noteq> 0)"

text \<open>
  \<^verbatim>\<open>a == b\<close> on two floats is IEEE equality: a NaN equals nothing, the two zeros are equal,
  and otherwise equal values have equal bits.
\<close>

definition float_eq :: "pyfloat \<Rightarrow> pyfloat \<Rightarrow> bool" where
  "float_eq a b = (\<not> isnan a \<and> \<not> isnan b \<and> (a = b \<or> (is_zero a \<and> is_zero b)))"

subsection \<open>Dictionaries\<close>

fun key_int :: "pykey \<Rightarrow> int" where
  "key_int (KInt i) = i"
| "key_int (KBool b) = (if b then 1 else 0)"
| "key_int (KStr s) = 0"

text \<open>Equality of keys: \<^verbatim>\<open>True == 1\<close> and \<^verbatim>\<open>False == 0\<close>, with equal hashes.\<close>

fun key_eq :: "pykey \<Rightarrow> pykey \<Rightarrow> bool" where
  "key_eq (KStr s) (KStr t) = (s = t)"
| "key_eq (KStr s) b = False"
| "key_eq a (KStr t) = False"
| "key_eq a b = (key_int a = key_int b)"

text \<open>\<^verbatim>\<open>k in d\<close> and \<^verbatim>\<open>d[k]\<close> together: \<open>None\<close> when the key is absent.\<close>

fun dict_get :: "pydict \<Rightarrow> pykey \<Rightarrow> pyval option" where
  "dict_get [] k = None"
| "dict_get ((k', v) # d) k = (if key_eq k' k then Some v else dict_get d k)"

text \<open>\<^verbatim>\<open>d[k] = v\<close>: an existing key keeps its place, a new one goes last.\<close>

fun dict_set :: "pykey \<Rightarrow> pyval \<Rightarrow> pydict \<Rightarrow> pydict" where
  "dict_set k v [] = [(k, v)]"
| "dict_set k v ((k', v') # d) =
     (if key_eq k' k then (k', v) # d else (k', v') # dict_set k v d)"

fun keys_wf :: "pykey list \<Rightarrow> bool" where
  "keys_wf [] = True"
| "keys_wf (k # ks) = (list_all (\<lambda>k'. \<not> key_eq k k') ks \<and> keys_wf ks)"

fun dict_wf :: "pyval \<Rightarrow> bool" where
  "dict_wf (PList xs) = list_all dict_wf xs"
| "dict_wf (PTuple xs) = list_all dict_wf xs"
| "dict_wf (PDict d) = (keys_wf (map fst d) \<and> list_all (\<lambda>kv. dict_wf (snd kv)) d)"
| "dict_wf v = True"

subsection \<open>\<^verbatim>\<open>datetime.isoformat\<close>\<close>

text \<open>
  Python's \<^verbatim>\<open>"%0wd" % n\<close>: the decimal digits of \<open>n\<close>, padded with zeros on the left to at
  least \<open>w\<close> characters.
\<close>

definition digit_char :: "nat \<Rightarrow> char" where
  "digit_char n = ''0123456789'' ! (n mod 10)"

fun dec :: "nat \<Rightarrow> string" where
  "dec n = (if n < 10 then [digit_char n] else dec (n div 10) @ [digit_char (n mod 10)])"

declare dec.simps [simp del]

definition zero_pad :: "nat \<Rightarrow> nat \<Rightarrow> string" where
  "zero_pad w n = replicate (w - length (dec n)) (CHR ''0'') @ dec n"

text \<open>
  \<^verbatim>\<open>_format_offset\<close> of the standard library: sign, hours and minutes, then the seconds
  when they or the microseconds are not zero, then the microseconds when they are not zero.
\<close>

definition format_offset :: "int \<Rightarrow> string" where
  "format_offset off =
     (let a = nat \<bar>off\<bar>;
          hh = a div 3600000000;
          mm = (a mod 3600000000) div 60000000;
          ss = (a mod 60000000) div 1000000;
          us = a mod 1000000
      in (if off < 0 then ''-'' else ''+'') @ zero_pad 2 hh @ '':'' @ zero_pad 2 mm @
         (if ss \<noteq> 0 \<or> us \<noteq> 0
          then '':'' @ zero_pad 2 ss @ (if us \<noteq> 0 then ''.'' @ zero_pad 6 us else [])
          else []))"

text \<open>
  \<^verbatim>\<open>datetime.isoformat()\<close> with its default arguments: the fields as they are stored, in
  the value's own zone, the microseconds when they are not zero, and the offset of an aware
  value. It converts nothing.
\<close>

definition isoformat :: "datetime \<Rightarrow> string" where
  "isoformat dt =
     zero_pad 4 (year dt) @ ''-'' @ zero_pad 2 (month dt) @ ''-'' @ zero_pad 2 (day dt) @ ''T'' @
     zero_pad 2 (hour dt) @ '':'' @ zero_pad 2 (minute dt) @ '':'' @ zero_pad 2 (second dt) @
     (if microsecond dt \<noteq> 0 then ''.'' @ zero_pad 6 (microsecond dt) else []) @
     (case utcoffset dt of None \<Rightarrow> [] | Some off \<Rightarrow> format_offset off)"

section \<open>The encoder\<close>

text \<open>
  \<^verbatim>\<open>is_primitive_value\<close>, lines 91 to 97: \<^verbatim>\<open>bool\<close>, \<^verbatim>\<open>int\<close>, \<^verbatim>\<open>float\<close> or \<^verbatim>\<open>str\<close>.
\<close>

fun is_primitive_value :: "pyval \<Rightarrow> bool" where
  "is_primitive_value (PBool b) = True"
| "is_primitive_value (PInt i) = True"
| "is_primitive_value (PFloat x) = True"
| "is_primitive_value (PStr s) = True"
| "is_primitive_value v = False"

text \<open>
  \<^verbatim>\<open>serialize_value\<close>, lines 100 to 134. The list \<^verbatim>\<open>handles\<close> is mutated in place, so the
  model returns it with the outcome, also when the call raises. There is one equation for
  each kind of value; the test of line 101 comes first and the depth test of line 105
  before every other one, as in the source. \<open>serialize_list\<close> is the
  \<^verbatim>\<open>list(map(...))\<close> of line 126, left to right, and \<open>serialize_items\<close> the loop of lines
  131 and 132 over the entries in insertion order, with \<^verbatim>\<open>result\<close> as accumulator.
\<close>

fun serialize_value :: "pyval \<Rightarrow> channel list \<Rightarrow> int \<Rightarrow> (pyerror + pyval) \<times> channel list"
  and serialize_list :: "pyval list \<Rightarrow> channel list \<Rightarrow> int \<Rightarrow> (pyerror + pyval list) \<times> channel list"
  and serialize_items :: "pydict \<Rightarrow> pydict \<Rightarrow> channel list \<Rightarrow> int \<Rightarrow> (pyerror + pydict) \<times> channel list"
where
  "serialize_value (PHandle jh) handles depth =
     (Inr (PDict [(KStr ''h'', PInt (int (length handles)))]), handles @ [h_channel jh])"
| "serialize_value PNone handles depth =
     (if depth > 100 then (Inl (Error ''Maximum argument depth exceeded''), handles)
      else (Inr (PDict [(KStr ''v'', PStr ''undefined'')]), handles))"
| "serialize_value (PFloat x) handles depth =
     (if depth > 100 then (Inl (Error ''Maximum argument depth exceeded''), handles)
      else if float_eq x float_inf then (Inr (PDict [(KStr ''v'', PStr ''Infinity'')]), handles)
      else if float_eq x float_neg_inf then (Inr (PDict [(KStr ''v'', PStr ''-Infinity'')]), handles)
      else if float_eq x float_neg_zero then (Inr (PDict [(KStr ''v'', PStr ''-0'')]), handles)
      else if float_eq x float_neg_zero then (Inr (PDict [(KStr ''v'', PStr ''-0'')]), handles)
      else if isnan x then (Inr (PDict [(KStr ''v'', PStr ''NaN'')]), handles)
      else if is_primitive_value (PFloat x) then (Inr (PFloat x), handles)
      else (Inr (PDict [(KStr ''v'', PStr ''undefined'')]), handles))"
| "serialize_value (PDatetime dt) handles depth =
     (if depth > 100 then (Inl (Error ''Maximum argument depth exceeded''), handles)
      else (Inr (PDict [(KStr ''d'', PStr (isoformat dt @ ''Z''))]), handles))"
| "serialize_value (PList xs) handles depth =
     (if depth > 100 then (Inl (Error ''Maximum argument depth exceeded''), handles)
      else (case serialize_list xs handles (depth + 1) of
              (Inl e, hs) \<Rightarrow> (Inl e, hs)
            | (Inr result, hs) \<Rightarrow> (Inr (PDict [(KStr ''a'', PList result)]), hs)))"
| "serialize_value (PDict d) handles depth =
     (if depth > 100 then (Inl (Error ''Maximum argument depth exceeded''), handles)
      else (case serialize_items d [] handles (depth + 1) of
              (Inl e, hs) \<Rightarrow> (Inl e, hs)
            | (Inr result, hs) \<Rightarrow> (Inr (PDict [(KStr ''o'', PDict result)]), hs)))"
| "serialize_value v handles depth =
     (if depth > 100 then (Inl (Error ''Maximum argument depth exceeded''), handles)
      else if is_primitive_value v then (Inr v, handles)
      else (Inr (PDict [(KStr ''v'', PStr ''undefined'')]), handles))"
| "serialize_list [] handles depth = (Inr [], handles)"
| "serialize_list (a # as) handles depth =
     (case serialize_value a handles depth of
        (Inl e, hs) \<Rightarrow> (Inl e, hs)
      | (Inr w, hs) \<Rightarrow>
          (case serialize_list as hs depth of
             (Inl e, hs') \<Rightarrow> (Inl e, hs')
           | (Inr ws, hs') \<Rightarrow> (Inr (w # ws), hs')))"
| "serialize_items [] result handles depth = (Inr result, handles)"
| "serialize_items ((name, x) # d) result handles depth =
     (case serialize_value x handles depth of
        (Inl e, hs) \<Rightarrow> (Inl e, hs)
      | (Inr w, hs) \<Rightarrow> serialize_items d (dict_set name w result) hs depth)"

text \<open>
  \<^verbatim>\<open>serialize_argument\<close>, lines 137 to 140: a fresh list of handles, and the envelope
  \<^verbatim>\<open>dict(value=value, handles=handles)\<close> when the encoding returns.
\<close>

record argument =
  arg_value :: pyval
  arg_handles :: "channel list"

definition serialize_argument :: "pyval \<Rightarrow> pyerror + argument" where
  "serialize_argument arg =
     (case serialize_value arg [] 0 of
        (Inl e, handles) \<Rightarrow> Inl e
      | (Inr v, handles) \<Rightarrow> Inr \<lparr>arg_value = v, arg_handles = handles\<rparr>)"

section \<open>The decoder\<close>

subsection \<open>Iteration, subscription and slicing\<close>

text \<open>A key as a value, when a dictionary is iterated, and a value as a key, when it is stored.\<close>

fun key_val :: "pykey \<Rightarrow> pyval" where
  "key_val (KStr s) = PStr s"
| "key_val (KInt i) = PInt i"
| "key_val (KBool b) = PBool b"

fun as_key :: "pyval \<Rightarrow> pykey option" where
  "as_key (PStr s) = Some (KStr s)"
| "as_key (PInt i) = Some (KInt i)"
| "as_key (PBool b) = Some (KBool b)"
| "as_key v = None"

text \<open>
  \<^verbatim>\<open>for e in x\<close>: the elements of a list or tuple, the characters of a string, the keys of
  a dictionary; nothing else in \<open>pyval\<close> is iterable.
\<close>

fun py_iter :: "pyval \<Rightarrow> pyerror + pyval list" where
  "py_iter (PList xs) = Inr xs"
| "py_iter (PTuple xs) = Inr xs"
| "py_iter (PStr s) = Inr (map (\<lambda>c. PStr [c]) s)"
| "py_iter (PDict d) = Inr (map (\<lambda>kv. key_val (fst kv)) d)"
| "py_iter v = Inl TypeError"

text \<open>Indexing a sequence: a negative index counts from the end.\<close>

definition seq_index :: "'a list \<Rightarrow> int \<Rightarrow> pyerror + 'a" where
  "seq_index xs i =
     (if 0 \<le> i \<and> i < int (length xs) then Inr (xs ! nat i)
      else if i < 0 \<and> - int (length xs) \<le> i then Inr (xs ! nat (int (length xs) + i))
      else Inl IndexError)"

fun as_index :: "pyval \<Rightarrow> int option" where
  "as_index (PInt i) = Some i"
| "as_index (PBool b) = Some (if b then 1 else 0)"
| "as_index v = None"

text \<open>
  \<^verbatim>\<open>x[name]\<close>, as the decoder uses it in line 173, with a \<open>name\<close> that the iteration over
  \<open>x\<close> itself has produced: a key of the dictionary, an element of the list or tuple (an
  index only if it is an integer or a boolean), a character of the string (never an index).
  Nothing else in \<open>pyval\<close> can be subscripted.
\<close>

fun py_getitem :: "pyval \<Rightarrow> pyval \<Rightarrow> pyerror + pyval" where
  "py_getitem (PDict d) name =
     (case as_key name of
        None \<Rightarrow> Inl KeyError
      | Some k \<Rightarrow> (case dict_get d k of None \<Rightarrow> Inl KeyError | Some v \<Rightarrow> Inr v))"
| "py_getitem (PList xs) name =
     (case as_index name of None \<Rightarrow> Inl TypeError | Some i \<Rightarrow> seq_index xs i)"
| "py_getitem (PTuple xs) name =
     (case as_index name of None \<Rightarrow> Inl TypeError | Some i \<Rightarrow> seq_index xs i)"
| "py_getitem (PStr s) name =
     (case as_index name of
        None \<Rightarrow> Inl TypeError
      | Some i \<Rightarrow> (case seq_index s i of Inl e \<Rightarrow> Inl e | Inr c \<Rightarrow> Inr (PStr [c])))"
| "py_getitem v name = Inl TypeError"

text \<open>The slice \<^verbatim>\<open>x[:-1]\<close>: all but the last element of a sequence.\<close>

fun py_butlast :: "pyval \<Rightarrow> pyerror + pyval" where
  "py_butlast (PStr s) = Inr (PStr (butlast s))"
| "py_butlast (PList xs) = Inr (PList (butlast xs))"
| "py_butlast (PTuple xs) = Inr (PTuple (butlast xs))"
| "py_butlast v = Inl TypeError"

subsection \<open>\<^verbatim>\<open>datetime.fromisoformat\<close>\<close>

text \<open>A field of decimal digits and its value.\<close>

definition is_digit :: "char \<Rightarrow> bool" where
  "is_digit c = (48 \<le> (of_char c :: nat) \<and> (of_char c :: nat) \<le> 57)"

definition digits_val :: "string \<Rightarrow> nat option" where
  "digits_val s =
     (if s \<noteq> [] \<and> list_all is_digit s
      then Some (foldl (\<lambda>n c. 10 * n + (of_char c - 48)) 0 s) else None)"

definition parse_isoformat_date :: "string \<Rightarrow> (nat \<times> nat \<times> nat) option" where
  "parse_isoformat_date s =
     (if length s = 10 \<and> s ! 4 = CHR ''-'' \<and> s ! 7 = CHR ''-''
      then (case (digits_val (take 4 s), digits_val (take 2 (drop 5 s)), digits_val (drop 8 s)) of
              (Some y, Some m, Some d) \<Rightarrow> Some (y, m, d)
            | _ \<Rightarrow> None)
      else None)"

text \<open>\<open>HH[:MM[:SS[.fff[fff]]]]\<close>, the fraction in microseconds.\<close>

definition parse_fraction :: "string \<Rightarrow> nat option" where
  "parse_fraction f =
     (if length f = 3 then map_option (\<lambda>n. n * 1000) (digits_val f)
      else if length f = 6 then digits_val f
      else None)"

definition parse_hh_mm_ss_ff :: "string \<Rightarrow> (nat \<times> nat \<times> nat \<times> nat) option" where
  "parse_hh_mm_ss_ff s =
     (case digits_val (take 2 s) of
        None \<Rightarrow> None
      | Some hh \<Rightarrow>
          if length s < 2 then None
          else if length s = 2 then Some (hh, 0, 0, 0)
          else if s ! 2 \<noteq> CHR '':'' then None
          else (case digits_val (take 2 (drop 3 s)) of
             None \<Rightarrow> None
           | Some mm \<Rightarrow>
               if length s < 5 then None
               else if length s = 5 then Some (hh, mm, 0, 0)
               else if s ! 5 \<noteq> CHR '':'' then None
               else (case digits_val (take 2 (drop 6 s)) of
                  None \<Rightarrow> None
                | Some ss \<Rightarrow>
                    if length s < 8 then None
                    else if length s = 8 then Some (hh, mm, ss, 0)
                    else if s ! 8 \<noteq> CHR ''.'' then None
                    else map_option (\<lambda>us. (hh, mm, ss, us)) (parse_fraction (drop 9 s)))))"

definition is_sign :: "char \<Rightarrow> bool" where
  "is_sign c = (c = CHR ''+'' \<or> c = CHR ''-'')"

text \<open>
  The time of day, then the offset \<open>(+|-)HH:MM[:SS[.ffffff]]\<close> if there is one. An offset
  of zero is \<^verbatim>\<open>timezone.utc\<close>; \<^verbatim>\<open>timezone\<close> refuses an offset of a day or more.
\<close>

definition parse_isoformat_time :: "string \<Rightarrow> ((nat \<times> nat \<times> nat \<times> nat) \<times> int option) option" where
  "parse_isoformat_time tstr =
     (let timestr = takeWhile (\<lambda>c. \<not> is_sign c) tstr;
          rest = dropWhile (\<lambda>c. \<not> is_sign c) tstr
      in case parse_hh_mm_ss_ff timestr of
           None \<Rightarrow> None
         | Some t \<Rightarrow>
             if rest = [] then Some (t, None)
             else if length (tl rest) \<notin> {5, 8, 15} then None
             else (case parse_hh_mm_ss_ff (tl rest) of
                None \<Rightarrow> None
              | Some (h, m, s, us) \<Rightarrow>
                  let off = int (((h * 60 + m) * 60 + s) * 1000000 + us)
                  in if off \<ge> 86400000000 then None
                     else Some (t, Some (if hd rest = CHR ''-'' then - off else off))))"

definition is_leap :: "nat \<Rightarrow> bool" where
  "is_leap y = (y mod 4 = 0 \<and> (y mod 100 \<noteq> 0 \<or> y mod 400 = 0))"

definition days_in_month :: "nat \<Rightarrow> nat \<Rightarrow> nat" where
  "days_in_month y m =
     (if m = 2 then (if is_leap y then 29 else 28)
      else if m \<in> {4, 6, 9, 11} then 30 else 31)"

text \<open>The ranges that the constructor \<^verbatim>\<open>datetime(...)\<close> checks.\<close>

definition datetime_ok :: "datetime \<Rightarrow> bool" where
  "datetime_ok dt =
     (1 \<le> year dt \<and> year dt \<le> 9999 \<and> 1 \<le> month dt \<and> month dt \<le> 12 \<and>
      1 \<le> day dt \<and> day dt \<le> days_in_month (year dt) (month dt) \<and>
      hour dt \<le> 23 \<and> minute dt \<le> 59 \<and> second dt \<le> 59 \<and> microsecond dt \<le> 999999 \<and>
      (case utcoffset dt of None \<Rightarrow> True | Some off \<Rightarrow> \<bar>off\<bar> < 86400000000))"

text \<open>
  \<^verbatim>\<open>datetime.fromisoformat\<close> on a string, as Python 3.7 to 3.10 document it: the format is
  \<open>YYYY-MM-DD[*HH[:MM[:SS[.fff[fff]]]][+HH:MM[:SS[.ffffff]]]]\<close>, where \<open>*\<close> is any one
  character, and every other string is a \<^verbatim>\<open>ValueError\<close>. It is the inverse of
  \<^verbatim>\<open>datetime.isoformat\<close>.
\<close>

definition fromisoformat :: "string \<Rightarrow> pyerror + datetime" where
  "fromisoformat s =
     (case parse_isoformat_date (take 10 s) of
        None \<Rightarrow> Inl ValueError
      | Some (y, m, d) \<Rightarrow>
          (case (if length s = 10 then Some ((0, 0, 0, 0), None)
                 else parse_isoformat_time (drop 11 s)) of
             None \<Rightarrow> Inl ValueError
           | Some ((hh, mm, ss, us), tz) \<Rightarrow>
               let dt = \<lparr>year = y, month = m, day = d, hour = hh, minute = mm, second = ss,
                          microsecond = us, utcoffset = tz\<rparr>
               in if datetime_ok dt then Inr dt else Inl ValueError))"

text \<open>
  \<^verbatim>\<open>parse_value\<close>, lines 143 to 175. A dictionary is tested for the keys \<^verbatim>\<open>v\<close>,
  \<^verbatim>\<open>a\<close>, \<^verbatim>\<open>d\<close> and \<^verbatim>\<open>o\<close> in this order; \<^verbatim>\<open>None\<close> and everything that is not
  a dictionary is returned as it is. \<open>parse_list\<close> is the \<^verbatim>\<open>list(map(...))\<close> of line 164
  and \<open>parse_items\<close> the loop of lines 172 and 173, with \<^verbatim>\<open>result\<close> as accumulator.
  The function takes no resolver for handles and has no case for the key \<^verbatim>\<open>h\<close>.
\<close>

function parse_value :: "pyval \<Rightarrow> pyerror + pyval"
  and parse_list :: "pyval list \<Rightarrow> pyerror + pyval list"
  and parse_items :: "pyval list \<Rightarrow> pyval \<Rightarrow> pydict \<Rightarrow> pyerror + pydict"
where
  "parse_value PNone = Inr PNone"
| "parse_value (PDict d) =
     (case dict_get d (KStr ''v'') of
        Some v \<Rightarrow>
          if v = PStr ''Infinity'' then Inr (PFloat float_inf)
          else if v = PStr ''-Infinity'' then Inr (PFloat float_neg_inf)
          else if v = PStr ''-0'' then Inr (PFloat float_neg_zero)
          else if v = PStr ''NaN'' then Inr (PFloat float_nan)
          else if v = PStr ''undefined'' then Inr PNone
          else if v = PStr ''null'' then Inr PNone
          else Inr v
      | None \<Rightarrow>
     (case dict_get d (KStr ''a'') of
        Some a \<Rightarrow>
          (case py_iter a of
             Inl e \<Rightarrow> Inl e
           | Inr es \<Rightarrow> (case parse_list es of Inl e \<Rightarrow> Inl e | Inr xs \<Rightarrow> Inr (PList xs)))
      | None \<Rightarrow>
     (case dict_get d (KStr ''d'') of
        Some s \<Rightarrow>
          (case py_butlast s of
             Inl e \<Rightarrow> Inl e
           | Inr (PStr t) \<Rightarrow> (case fromisoformat t of Inl e \<Rightarrow> Inl e | Inr dt \<Rightarrow> Inr (PDatetime dt))
           | Inr _ \<Rightarrow> Inl TypeError)
      | None \<Rightarrow>
     (case dict_get d (KStr ''o'') of
        Some o' \<Rightarrow>
          (case py_iter o' of
             Inl e \<Rightarrow> Inl e
           | Inr names \<Rightarrow>
               (case parse_items names o' [] of Inl e \<Rightarrow> Inl e | Inr result \<Rightarrow> Inr (PDict result)))
      | None \<Rightarrow> Inr (PDict d)))))"
| "parse_value (PBool b) = Inr (PBool b)"
| "parse_value (PInt i) = Inr (PInt i)"
| "parse_value (PFloat x) = Inr (PFloat x)"
| "parse_value (PStr s) = Inr (PStr s)"
| "parse_value (PDatetime dt) = Inr (PDatetime dt)"
| "parse_value (PList xs) = Inr (PList xs)"
| "parse_value (PTuple xs) = Inr (PTuple xs)"
| "parse_value (PHandle jh) = Inr (PHandle jh)"
| "parse_value (PObject n) = Inr (PObject n)"
| "parse_list [] = Inr []"
| "parse_list (e # es) =
     (case parse_value e of
        Inl err \<Rightarrow> Inl err
      | Inr x \<Rightarrow> (case parse_list es of Inl err \<Rightarrow> Inl err | Inr xs \<Rightarrow> Inr (x # xs)))"
| "parse_items [] o' result = Inr result"
| "parse_items (name # names) o' result =
     (case py_getitem o' name of
        Inl err \<Rightarrow> Inl err
      | Inr x \<Rightarrow>
          (case parse_value x of
             Inl err \<Rightarrow> Inl err
           | Inr y \<Rightarrow>
               (case as_key name of
                  None \<Rightarrow> Inl TypeError
                | Some k \<Rightarrow> parse_items names o' (dict_set k y result))))"
  by pat_completeness auto


text \<open>\<^verbatim>\<open>parse_result\<close>, lines 178 and 179.\<close>

definition parse_result :: "pyval \<Rightarrow> pyerror + pyval" where
  "parse_result result = parse_value result"

text \<open>The measure for the termination of \<open>parse_value\<close>: the largest element of a list.\<close>

fun msize :: "pyval list \<Rightarrow> nat" where
  "msize [] = 0"
| "msize (x # xs) = max (size x) (msize xs)"

section \<open>Notions of the specification\<close>

text \<open>The error of line 106, which the specification calls \<^verbatim>\<open>DepthExceeded\<close>.\<close>

definition depth_error :: pyerror where
  "depth_error = Error ''Maximum argument depth exceeded''"

text \<open>The node \<^verbatim>\<open>dict(v="undefined")\<close> of lines 108 and 134.\<close>

definition undefined_node :: pyval where
  "undefined_node = PDict [(KStr ''v'', PStr ''undefined'')]"

text \<open>The values that pass every \<^verbatim>\<open>isinstance\<close> test of \<^verbatim>\<open>serialize_value\<close> and are not \<^verbatim>\<open>None\<close>.\<close>

fun unrecognized :: "pyval \<Rightarrow> bool" where
  "unrecognized (PTuple xs) = True"
| "unrecognized (PObject n) = True"
| "unrecognized v = False"

text \<open>The texts that \<^verbatim>\<open>parse_value\<close> reads as sentinels under the key \<^verbatim>\<open>v\<close>, lines 149 to 160.\<close>

definition sentinel_names :: "string list" where
  "sentinel_names = [''Infinity'', ''-Infinity'', ''-0'', ''NaN'', ''undefined'', ''null'']"

text \<open>\<^verbatim>\<open>math.isfinite\<close>: the exponent bits are not all ones.\<close>

definition isfinite :: "pyfloat \<Rightarrow> bool" where
  "isfinite x = (x AND 0x7FF0000000000000 \<noteq> 0x7FF0000000000000)"

text \<open>
  A timestamp with microseconds in the zone \<^verbatim>\<open>UTC+05:00\<close>:
  \<^verbatim>\<open>datetime(2020, 1, 2, 12, 30, 45, 123456, tzinfo=timezone(timedelta(hours=5)))\<close>.
\<close>

definition example_timestamp :: datetime where
  "example_timestamp =
     \<lparr>year = 2020, month = 1, day = 2, hour = 12, minute = 30, second = 45,
      microsecond = 123456, utcoffset = Some 18000000000\<rparr>"

text \<open>\<^verbatim>\<open>isinstance(value, JSHandle)\<close>, the test of line 101.\<close>

fun is_handle :: "pyval \<Rightarrow> bool" where
  "is_handle (PHandle jh) = True"
| "is_handle v = False"

text \<open>
  A value under a stack of containers: each layer is a list with one element or a dictionary
  with one entry. \<open>nest ls v\<close> has \<open>v\<close> nested \<open>length ls\<close> levels deep, and
  \<open>wire_nest ls w\<close> is the encoding of the same stack around the node \<open>w\<close>.
\<close>

datatype layer = InList | InDict pykey

fun nest :: "layer list \<Rightarrow> pyval \<Rightarrow> pyval" where
  "nest [] v = v"
| "nest (InList # ls) v = PList [nest ls v]"
| "nest (InDict k # ls) v = PDict [(k, nest ls v)]"

fun wire_nest :: "layer list \<Rightarrow> pyval \<Rightarrow> pyval" where
  "wire_nest [] w = w"
| "wire_nest (InList # ls) w = PDict [(KStr ''a'', PList [wire_nest ls w])]"
| "wire_nest (InDict k # ls) w = PDict [(KStr ''o'', PDict [(k, wire_nest ls w)])]"

text \<open>A value with nothing nested in it: a scalar or an empty container.\<close>

fun childless :: "pyval \<Rightarrow> bool" where
  "childless (PList xs) = (xs = [])"
| "childless (PDict d) = (d = [])"
| "childless v = True"

text \<open>
  The channels of the handles in a value, in the order in which a depth-first walk from left
  to right meets them, each as often as it occurs. Lists and dictionaries are walked, as the
  encoder walks them.
\<close>

fun handle_refs :: "pyval \<Rightarrow> channel list" where
  "handle_refs (PHandle jh) = [h_channel jh]"
| "handle_refs (PList xs) = concat (map handle_refs xs)"
| "handle_refs (PDict d) = concat (map (\<lambda>kv. handle_refs (snd kv)) d)"
| "handle_refs v = []"

text \<open>
  The indices of the handle-tag nodes of a wire value, in the same order: a node is
  \<^verbatim>\<open>{h: i}\<close>, an array \<^verbatim>\<open>{a: [...]}\<close> of nodes, an object \<^verbatim>\<open>{o: {...}}\<close> of nodes, or something
  without handles.
\<close>

fun wire_indices :: "pyval \<Rightarrow> int list" where
  "wire_indices (PDict [(KStr k, PInt i)]) = (if k = ''h'' then [i] else [])"
| "wire_indices (PDict [(KStr k, PList ws)]) =
     (if k = ''a'' then concat (map wire_indices ws) else [])"
| "wire_indices (PDict [(KStr k, PDict kvs)]) =
     (if k = ''o'' then concat (map (\<lambda>kv. wire_indices (snd kv)) kvs) else [])"
| "wire_indices w = []"

text \<open>A handle for the examples.\<close>

definition ref_a :: js_handle where
  "ref_a = \<lparr>h_channel = Channel ''idA'', h_preview = ''JSHandle@object''\<rparr>"

text \<open>
  The values of the round-trip claim: booleans, integers, finite floats, strings, lists of
  such values and dictionaries from text keys to such values.
\<close>

fun is_text_key :: "pykey \<Rightarrow> bool" where
  "is_text_key (KStr s) = True"
| "is_text_key k = False"

fun plain :: "pyval \<Rightarrow> bool" where
  "plain (PBool b) = True"
| "plain (PInt i) = True"
| "plain (PFloat x) = isfinite x"
| "plain (PStr s) = True"
| "plain (PList xs) = list_all plain xs"
| "plain (PDict d) = list_all (\<lambda>kv. is_text_key (fst kv) \<and> plain (snd kv)) d"
| "plain v = False"

text \<open>
  How deep a value is nested: 0 for a scalar and for an empty container, otherwise one more
  than the deepest element. The encoder, started at depth 0, reaches depth \<open>nesting v\<close>.
\<close>

fun nesting :: "pyval \<Rightarrow> nat" where
  "nesting (PList xs) = foldr (\<lambda>x n. max (Suc (nesting x)) n) xs 0"
| "nesting (PDict d) = foldr (\<lambda>kv n. max (Suc (nesting (snd kv))) n) d 0"
| "nesting v = 0"

text \<open>The value with every float zero replaced by negative zero.\<close>

fun neg_zeros :: "pyval \<Rightarrow> pyval" where
  "neg_zeros (PFloat x) = PFloat (if is_zero x then float_neg_zero else x)"
| "neg_zeros (PList xs) = PList (map neg_zeros xs)"
| "neg_zeros (PDict d) = PDict (map (\<lambda>kv. (fst kv, neg_zeros (snd kv))) d)"
| "neg_zeros v = v"

text \<open>
  Python's \<^verbatim>\<open>==\<close> on two values of the same kind: IEEE equality on floats, element by
  element on lists and tuples, the same keys with equal values on dictionaries, in any
  order. It relates two values only if \<^verbatim>\<open>==\<close> does; numbers of different kinds, which \<^verbatim>\<open>==\<close>
  also compares by value, it does not relate.
\<close>

fun py_eq :: "pyval \<Rightarrow> pyval \<Rightarrow> bool" where
  "py_eq (PFloat a) w = (case w of PFloat b \<Rightarrow> float_eq a b | _ \<Rightarrow> False)"
| "py_eq (PList xs) w = (case w of PList ys \<Rightarrow> list_all2 (\<lambda>x y. py_eq x y) xs ys | _ \<Rightarrow> False)"
| "py_eq (PTuple xs) w = (case w of PTuple ys \<Rightarrow> list_all2 (\<lambda>x y. py_eq x y) xs ys | _ \<Rightarrow> False)"
| "py_eq (PDict a) w =
     (case w of
        PDict b \<Rightarrow>
          length a = length b \<and>
          list_all (\<lambda>kx. case dict_get b (fst kx) of None \<Rightarrow> False | Some y \<Rightarrow> py_eq (snd kx) y) a
      | _ \<Rightarrow> False)"
| "py_eq v w = (v = w)"

text \<open>The dictionary \<^verbatim>\<open>{"a": [1, "x", 0.0, True], "v": "NaN"}\<close>.\<close>

definition example_value :: pyval where
  "example_value =
     PDict [(KStr ''a'', PList [PInt 1, PStr ''x'', PFloat float_pos_zero, PBool True]),
            (KStr ''v'', PStr ''NaN'')]"

section \<open>Termination of the decoder\<close>

lemma dict_get_size: "dict_get d k = Some v \<Longrightarrow> size v < size (PDict d)"
  by (induction d) (auto split: if_splits)

lemma msize_le: "msize xs \<le> size_list size xs"
  by (induction xs) auto

lemma msize_map0: "(\<And>x. size (f x) = 0) \<Longrightarrow> msize (map f xs) = 0"
  by (induction xs) auto

lemma key_val_size: "size (key_val k) = 0"
  by (cases k) auto

lemma py_iter_size: "py_iter a = Inr es \<Longrightarrow> msize es \<le> size a"
proof (cases a)
  case (PList xs)
  assume "py_iter a = Inr es"
  with PList show ?thesis using msize_le [of xs] by simp
next
  case (PTuple xs)
  assume "py_iter a = Inr es"
  with PTuple show ?thesis using msize_le [of xs] by simp
next
  case (PStr s)
  assume "py_iter a = Inr es"
  with PStr show ?thesis by (auto simp: msize_map0)
next
  case (PDict d)
  assume "py_iter a = Inr es"
  with PDict show ?thesis by (auto simp: msize_map0 key_val_size)
qed auto

lemma seq_index_mem: "seq_index xs i = Inr x \<Longrightarrow> x \<in> set xs"
  by (auto simp: seq_index_def split: if_splits)

lemma size_mem: "x \<in> set xs \<Longrightarrow> size (x :: pyval) \<le> size_list size xs"
  by (induction xs) auto

lemma py_getitem_size: "py_getitem a name = Inr x \<Longrightarrow> size x \<le> size a"
proof (cases a)
  case (PList xs)
  assume "py_getitem a name = Inr x"
  with PList show ?thesis
    by (auto split: option.splits dest!: seq_index_mem size_mem)
next
  case (PTuple xs)
  assume "py_getitem a name = Inr x"
  with PTuple show ?thesis
    by (auto split: option.splits dest!: seq_index_mem size_mem)
next
  case (PStr s)
  assume "py_getitem a name = Inr x"
  with PStr show ?thesis
    by (auto split: option.splits sum.splits)
next
  case (PDict d)
  assume "py_getitem a name = Inr x"
  with PDict show ?thesis
    using dict_get_size by (fastforce split: option.splits)
qed auto

termination parse_value
proof (relation "inv_image (less_than <*lex*> less_than)
    (\<lambda>c. case c of
       Inl v \<Rightarrow> (size v, 0)
     | Inr (Inl es) \<Rightarrow> (msize es, Suc (length es))
     | Inr (Inr (names, a, result)) \<Rightarrow> (size a, Suc (length names)))", goal_cases)
  case 1
  show ?case by (intro wf_inv_image wf_lex_prod wf_less_than)
next
  case (2 d a names)
  then show ?case
    by (auto dest!: dict_get_size py_iter_size)
next
  case (3 d a es)
  then show ?case
    by (auto dest!: dict_get_size py_iter_size)
next
  case (4 e es)
  then show ?case by (auto simp: max_def)
next
  case (5 e es x)
  then show ?case by (auto simp: max_def)
next
  case (6 name names a result x)
  then show ?case by (auto dest!: py_getitem_size)
next
  case (7 name names a result x y k)
  then show ?case by simp
qed

section \<open>Auxiliary facts\<close>

lemma key_eq_KStr [simp]: "key_eq k (KStr s) = (k = KStr s)"
  by (cases k) auto

lemma key_eq_KStr_left [simp]: "key_eq (KStr s) k = (k = KStr s)"
  by (cases k) auto

lemma key_eq_refl [simp]: "key_eq k k"
  by (cases k) auto

lemma keys_wf_append:
  "keys_wf (xs @ ys) =
     (keys_wf xs \<and> keys_wf ys \<and> (\<forall>x\<in>set xs. \<forall>y\<in>set ys. \<not> key_eq x y))"
  by (induction xs) (auto simp: list_all_iff)

lemma dict_set_append:
  "\<forall>k'\<in>set (map fst acc). \<not> key_eq k' k \<Longrightarrow> dict_set k w acc = acc @ [(k, w)]"
  by (induction acc) auto

subsection \<open>Floats\<close>

lemma float_eq_inf [simp]: "float_eq x float_inf = (x = float_inf)"
  by (auto simp: float_eq_def isnan_def is_zero_def float_inf_def)

lemma float_eq_neg_inf [simp]: "float_eq x float_neg_inf = (x = float_neg_inf)"
  by (auto simp: float_eq_def isnan_def is_zero_def float_neg_inf_def)

lemma is_zero_exponent: "is_zero x \<Longrightarrow> x AND 0x7FF0000000000000 = 0"
proof -
  assume "is_zero x"
  then have z: "x AND 0x7FFFFFFFFFFFFFFF = 0" by (simp add: is_zero_def)
  have "x AND 0x7FF0000000000000 = x AND (0x7FFFFFFFFFFFFFFF AND 0x7FF0000000000000)"
    by simp
  also have "\<dots> = (x AND 0x7FFFFFFFFFFFFFFF) AND 0x7FF0000000000000"
    by (simp only: and.assoc)
  finally show ?thesis using z by simp
qed

lemma is_zero_not_nan: "is_zero x \<Longrightarrow> \<not> isnan x"
  by (auto simp: isnan_def dest: is_zero_exponent)

lemma is_zero_finite: "is_zero x \<Longrightarrow> isfinite x"
  by (auto simp: isfinite_def dest: is_zero_exponent)

lemma finite_not_nan: "isfinite x \<Longrightarrow> \<not> isnan x"
  by (simp add: isfinite_def isnan_def)

lemma finite_not_inf: "isfinite x \<Longrightarrow> x \<noteq> float_inf \<and> x \<noteq> float_neg_inf"
  by (auto simp: isfinite_def float_inf_def float_neg_inf_def)

lemma float_eq_neg_zero [simp]: "float_eq x float_neg_zero = is_zero x"
  by (auto simp: float_eq_def is_zero_not_nan) (simp_all add: isnan_def is_zero_def float_neg_zero_def)

lemma float_consts [simp]:
  "is_zero float_pos_zero" "is_zero float_neg_zero" "isnan float_nan"
  "\<not> isnan float_inf" "\<not> isnan float_neg_inf"
  "sign_bit float_neg_zero" "\<not> sign_bit float_pos_zero" "float_neg_zero \<noteq> float_pos_zero"
  "float_inf \<noteq> float_neg_inf" "float_neg_inf \<noteq> float_inf"
  "\<not> is_zero float_inf" "\<not> is_zero float_neg_inf"
  "float_neg_zero \<noteq> float_inf" "float_neg_zero \<noteq> float_neg_inf"
  "float_pos_zero \<noteq> float_inf" "float_pos_zero \<noteq> float_neg_inf"
  by (simp_all add: is_zero_def isnan_def sign_bit_def float_pos_zero_def float_neg_zero_def
        float_nan_def float_inf_def float_neg_inf_def)

subsection \<open>The example timestamp\<close>

lemma isoformat_example:
  "isoformat example_timestamp = ''2020-01-02T12:30:45.123456+05:00''"
  by (simp add: isoformat_def zero_pad_def dec.simps digit_char_def format_offset_def
        example_timestamp_def Let_def)

lemma fromisoformat_example:
  "fromisoformat ''2020-01-02T12:30:45.123456+05:00'' = Inr example_timestamp"
  by (simp add: fromisoformat_def parse_isoformat_date_def parse_isoformat_time_def
        parse_hh_mm_ss_ff_def parse_fraction_def digits_val_def is_digit_def is_sign_def
        datetime_ok_def days_in_month_def is_leap_def example_timestamp_def Let_def)

subsection \<open>Depth\<close>

lemma depth_check_first:
  "\<not> is_handle v \<Longrightarrow> depth > 100 \<Longrightarrow> serialize_value v hs depth = (Inl depth_error, hs)"
  by (cases v) (simp_all add: depth_error_def)

lemma nest_not_handle: "\<not> is_handle v \<Longrightarrow> \<not> is_handle (nest ls v)"
  by (induction ls v rule: nest.induct) auto

lemma nest_raises:
  "\<not> is_handle v \<Longrightarrow> depth + int (length ls) > 100 \<Longrightarrow>
   serialize_value (nest ls v) hs depth = (Inl depth_error, hs)"
proof (induction ls arbitrary: depth)
  case Nil
  then show ?case by (simp add: depth_check_first)
next
  case (Cons l ls)
  show ?case
  proof (cases "depth > 100")
    case True
    with Cons.prems(1) show ?thesis
      using depth_check_first [OF nest_not_handle] by blast
  next
    case False
    from Cons.prems have "depth + 1 + int (length ls) > 100" by simp
    then have "serialize_value (nest ls v) hs (depth + 1) = (Inl depth_error, hs)"
      using Cons.IH Cons.prems(1) by blast
    with False show ?thesis by (cases l) simp_all
  qed
qed

lemma nest_returns:
  "depth + int (length ls) \<le> 100 \<Longrightarrow>
   serialize_value v hs (depth + int (length ls)) = (Inr w, hs') \<Longrightarrow>
   serialize_value (nest ls v) hs depth = (Inr (wire_nest ls w), hs')"
proof (induction ls arbitrary: depth)
  case Nil
  then show ?case by simp
next
  case (Cons l ls)
  from Cons.prems have le: "depth + 1 + int (length ls) \<le> 100" and d: "\<not> depth > 100"
    by simp_all
  have e: "depth + int (length (l # ls)) = depth + 1 + int (length ls)" by simp
  from Cons.prems(2) have "serialize_value v hs (depth + 1 + int (length ls)) = (Inr w, hs')"
    unfolding e .
  with le have "serialize_value (nest ls v) hs (depth + 1) = (Inr (wire_nest ls w), hs')"
    by (rule Cons.IH)
  with d show ?case by (cases l) simp_all
qed

lemma childless_returns:
  "\<not> is_handle v \<Longrightarrow> childless v \<Longrightarrow> depth \<le> 100 \<Longrightarrow>
   \<exists>w. serialize_value v hs depth = (Inr w, hs)"
  by (cases v) auto

subsection \<open>Handles\<close>

lemma upt_int_append:
  "i \<le> j \<Longrightarrow> j \<le> k \<Longrightarrow> map int [i..<j] @ map int [j..<k] = map int [i..<k]"
  by (metis le_Suc_ex map_append upt_add_eq_append)

lemma serialize_list_indices:
  assumes "\<And>x hs w hs'. x \<in> set xs \<Longrightarrow> serialize_value x hs d = (Inr w, hs') \<Longrightarrow>
             hs' = hs @ handle_refs x \<and> wire_indices w = map int [length hs..<length hs']"
    and "serialize_list xs hs d = (Inr ws, hs')"
  shows "hs' = hs @ concat (map handle_refs xs) \<and>
         concat (map wire_indices ws) = map int [length hs..<length hs']"
  using assms
proof (induction xs arbitrary: hs ws hs')
  case Nil
  then show ?case by simp
next
  case (Cons x xs)
  from Cons.prems(2) obtain w hs1 ws' where
    x: "serialize_value x hs d = (Inr w, hs1)" and
    xs: "serialize_list xs hs1 d = (Inr ws', hs')" and ws: "ws = w # ws'"
    by (auto split: prod.splits sum.splits)
  from Cons.prems(1) [OF _ x] have 1: "hs1 = hs @ handle_refs x"
    and 2: "wire_indices w = map int [length hs..<length hs1]" by simp_all
  have "hs' = hs1 @ concat (map handle_refs xs) \<and>
        concat (map wire_indices ws') = map int [length hs1..<length hs']"
  proof (rule Cons.IH [OF _ xs])
    fix y hs w hs'
    assume "y \<in> set xs" and "serialize_value y hs d = (Inr w, hs')"
    then show "hs' = hs @ handle_refs y \<and> wire_indices w = map int [length hs..<length hs']"
      using Cons.prems(1) [of y hs w hs'] by auto
  qed
  then have 3: "hs' = hs1 @ concat (map handle_refs xs)"
    and 4: "concat (map wire_indices ws') = map int [length hs1..<length hs']" by simp_all
  have "length hs \<le> length hs1" "length hs1 \<le> length hs'"
    using 1 3 by simp_all
  then have "map int [length hs..<length hs1] @ map int [length hs1..<length hs'] =
             map int [length hs..<length hs']"
    by (rule upt_int_append)
  with 1 2 3 4 ws show ?case by simp
qed

lemma serialize_items_indices:
  assumes "\<And>x hs w hs'. x \<in> snd ` set kvs \<Longrightarrow> serialize_value x hs d = (Inr w, hs') \<Longrightarrow>
             hs' = hs @ handle_refs x \<and> wire_indices w = map int [length hs..<length hs']"
    and "keys_wf (map fst acc @ map fst kvs)"
    and "serialize_items kvs acc hs d = (Inr r, hs')"
  shows "hs' = hs @ concat (map (\<lambda>kv. handle_refs (snd kv)) kvs) \<and>
         (\<exists>ws. length ws = length kvs \<and> r = acc @ zip (map fst kvs) ws \<and>
               concat (map wire_indices ws) = map int [length hs..<length hs'])"
  using assms
proof (induction kvs arbitrary: acc hs hs')
  case Nil
  then show ?case by simp
next
  case (Cons kv kvs)
  obtain k x where kv: "kv = (k, x)" by (cases kv)
  from Cons.prems(3) kv obtain w hs1 where
    x: "serialize_value x hs d = (Inr w, hs1)" and
    rest: "serialize_items kvs (dict_set k w acc) hs1 d = (Inr r, hs')"
    by (auto split: prod.splits sum.splits)
  from Cons.prems(2) kv have fresh: "\<forall>k'\<in>set (map fst acc). \<not> key_eq k' k"
    by (auto simp: keys_wf_append)
  then have set: "dict_set k w acc = acc @ [(k, w)]" by (rule dict_set_append)
  from Cons.prems(2) kv have wf': "keys_wf (map fst (acc @ [(k, w)]) @ map fst kvs)"
    by simp
  from Cons.prems(1) [OF _ x] kv have 1: "hs1 = hs @ handle_refs x"
    and 2: "wire_indices w = map int [length hs..<length hs1]" by simp_all
  have "hs' = hs1 @ concat (map (\<lambda>kv. handle_refs (snd kv)) kvs) \<and>
        (\<exists>ws. length ws = length kvs \<and> r = (acc @ [(k, w)]) @ zip (map fst kvs) ws \<and>
              concat (map wire_indices ws) = map int [length hs1..<length hs'])"
  proof (rule Cons.IH [OF _ wf' rest [unfolded set]])
    fix y hs w hs'
    assume "y \<in> snd ` set kvs" and "serialize_value y hs d = (Inr w, hs')"
    then show "hs' = hs @ handle_refs y \<and> wire_indices w = map int [length hs..<length hs']"
      using Cons.prems(1) [of y hs w hs'] by auto
  qed
  then obtain ws where 3: "hs' = hs1 @ concat (map (\<lambda>kv. handle_refs (snd kv)) kvs)"
    and 4: "length ws = length kvs" and 5: "r = (acc @ [(k, w)]) @ zip (map fst kvs) ws"
    and 6: "concat (map wire_indices ws) = map int [length hs1..<length hs']" by blast
  have "length hs \<le> length hs1" "length hs1 \<le> length hs'"
    using 1 3 by simp_all
  then have 7: "map int [length hs..<length hs1] @ map int [length hs1..<length hs'] =
             map int [length hs..<length hs']"
    by (rule upt_int_append)
  have "length (w # ws) = length (kv # kvs) \<and> r = acc @ zip (map fst (kv # kvs)) (w # ws) \<and>
        concat (map wire_indices (w # ws)) = map int [length hs..<length hs']"
    using 2 4 5 6 7 kv by simp
  then have "\<exists>ws. length ws = length (kv # kvs) \<and> r = acc @ zip (map fst (kv # kvs)) ws \<and>
        concat (map wire_indices ws) = map int [length hs..<length hs']"
    by blast
  with 1 3 kv show ?case by simp
qed

lemma serialize_value_indices:
  "dict_wf v \<Longrightarrow> serialize_value v hs d = (Inr w, hs') \<Longrightarrow>
   hs' = hs @ handle_refs v \<and> wire_indices w = map int [length hs..<length hs']"
proof (induction v arbitrary: hs d w hs')
  case (PList xs)
  from PList.prems(2) obtain ws where
    l: "serialize_list xs hs (d + 1) = (Inr ws, hs')" and w: "w = PDict [(KStr ''a'', PList ws)]"
    by (auto split: if_splits prod.splits sum.splits)
  have "hs' = hs @ concat (map handle_refs xs) \<and>
        concat (map wire_indices ws) = map int [length hs..<length hs']"
  proof (rule serialize_list_indices [OF _ l])
    fix y hs w hs'
    assume "y \<in> set xs" and "serialize_value y hs (d + 1) = (Inr w, hs')"
    then show "hs' = hs @ handle_refs y \<and> wire_indices w = map int [length hs..<length hs']"
      using PList.IH [of y hs "d + 1" w hs'] PList.prems(1) by (simp add: list_all_iff)
  qed
  with w show ?case by simp
next
  case (PDict kvs)
  from PDict.prems(2) obtain r where
    l: "serialize_items kvs [] hs (d + 1) = (Inr r, hs')" and w: "w = PDict [(KStr ''o'', PDict r)]"
    by (auto split: if_splits prod.splits sum.splits)
  have "hs' = hs @ concat (map (\<lambda>kv. handle_refs (snd kv)) kvs) \<and>
        (\<exists>ws. length ws = length kvs \<and> r = [] @ zip (map fst kvs) ws \<and>
              concat (map wire_indices ws) = map int [length hs..<length hs'])"
  proof (rule serialize_items_indices [OF _ _ l])
    fix x hs w hs'
    assume "x \<in> snd ` set kvs" and "serialize_value x hs (d + 1) = (Inr w, hs')"
    then obtain k where "(k, x) \<in> set kvs" by auto
    then have "dict_wf x"
      using PDict.prems(1) by (auto simp: list_all_iff)
    with \<open>(k, x) \<in> set kvs\<close> \<open>serialize_value x hs (d + 1) = (Inr w, hs')\<close>
    show "hs' = hs @ handle_refs x \<and> wire_indices w = map int [length hs..<length hs']"
      using PDict.IH [of "(k, x)" x hs "d + 1" w hs'] by simp
  next
    show "keys_wf (map fst [] @ map fst kvs)" using PDict.prems(1) by simp
  qed
  then obtain ws where 1: "hs' = hs @ concat (map (\<lambda>kv. handle_refs (snd kv)) kvs)"
    and 2: "length ws = length kvs" and 3: "r = zip (map fst kvs) ws"
    and 4: "concat (map wire_indices ws) = map int [length hs..<length hs']" by auto
  have "map snd r = ws" using 2 3 by (simp add: map_snd_zip)
  then have "map wire_indices (map snd r) = map wire_indices ws" by simp
  then have "map (\<lambda>kv. wire_indices (snd kv)) r = map wire_indices ws"
    by (simp add: comp_def)
  with 1 4 w show ?case by simp
next
  case (PFloat x)
  then show ?case by (auto split: if_splits)
next
  case (PTuple xs)
  from PTuple.prems(2) show ?case by (auto split: if_splits)
next
  case PNone
  then show ?case by (auto split: if_splits)
next
  case (PBool b)
  then show ?case by (auto split: if_splits)
next
  case (PInt i)
  then show ?case by (auto split: if_splits)
next
  case (PStr s)
  then show ?case by (auto split: if_splits)
next
  case (PDatetime dt)
  then show ?case by (auto split: if_splits)
next
  case (PHandle jh)
  then show ?case by auto
next
  case (PObject n)
  then show ?case by (auto split: if_splits)
qed

subsection \<open>Encoding and decoding again\<close>

lemma nesting_mem_list:
  "x \<in> set xs \<Longrightarrow> Suc (nesting x) \<le> foldr (\<lambda>x n. max (Suc (nesting x)) n) xs 0"
  by (induction xs) (auto simp: max_def)

lemma nesting_mem_dict:
  "kv \<in> set d \<Longrightarrow> Suc (nesting (snd kv)) \<le> foldr (\<lambda>kv n. max (Suc (nesting (snd kv))) n) d 0"
  by (induction d) (auto simp: max_def)

lemma roundtrip_list:
  assumes "\<And>x hs. x \<in> set xs \<Longrightarrow>
             \<exists>w. serialize_value x hs d = (Inr w, hs) \<and> parse_value w = Inr (neg_zeros x)"
  shows "\<exists>ws. serialize_list xs hs d = (Inr ws, hs) \<and> parse_list ws = Inr (map neg_zeros xs)"
  using assms
proof (induction xs)
  case Nil
  show ?case by simp
next
  case (Cons x xs)
  from Cons.prems [of x hs] obtain w where
    w: "serialize_value x hs d = (Inr w, hs)" "parse_value w = Inr (neg_zeros x)" by auto
  have "\<exists>ws. serialize_list xs hs d = (Inr ws, hs) \<and> parse_list ws = Inr (map neg_zeros xs)"
    by (rule Cons.IH) (simp add: Cons.prems)
  then obtain ws where
    ws: "serialize_list xs hs d = (Inr ws, hs)" "parse_list ws = Inr (map neg_zeros xs)" by auto
  from w ws have "serialize_list (x # xs) hs d = (Inr (w # ws), hs) \<and>
      parse_list (w # ws) = Inr (map neg_zeros (x # xs))" by simp
  then show ?case by blast
qed

lemma roundtrip_items:
  assumes "\<And>x hs. x \<in> snd ` set kvs \<Longrightarrow>
             \<exists>w. serialize_value x hs d = (Inr w, hs) \<and> parse_value w = Inr (neg_zeros x)"
    and "keys_wf (map fst acc @ map fst kvs)"
  shows "\<exists>ws. length ws = length kvs \<and>
           serialize_items kvs acc hs d = (Inr (acc @ zip (map fst kvs) ws), hs) \<and>
           parse_list ws = Inr (map (\<lambda>kv. neg_zeros (snd kv)) kvs)"
  using assms
proof (induction kvs arbitrary: acc)
  case Nil
  show ?case by simp
next
  case (Cons kv kvs)
  obtain k x where kv: "kv = (k, x)" by (cases kv)
  from Cons.prems(1) [of x hs] kv obtain w where
    w: "serialize_value x hs d = (Inr w, hs)" "parse_value w = Inr (neg_zeros x)" by auto
  from Cons.prems(2) kv have "\<forall>k'\<in>set (map fst acc). \<not> key_eq k' k"
    by (auto simp: keys_wf_append)
  then have set: "dict_set k w acc = acc @ [(k, w)]" by (rule dict_set_append)
  from Cons.prems(2) kv have wf': "keys_wf (map fst (acc @ [(k, w)]) @ map fst kvs)"
    by simp
  have "\<exists>ws. length ws = length kvs \<and>
           serialize_items kvs (acc @ [(k, w)]) hs d =
             (Inr ((acc @ [(k, w)]) @ zip (map fst kvs) ws), hs) \<and>
           parse_list ws = Inr (map (\<lambda>kv. neg_zeros (snd kv)) kvs)"
    by (rule Cons.IH [OF _ wf']) (simp add: Cons.prems(1))
  then obtain ws where ws: "length ws = length kvs"
    "serialize_items kvs (acc @ [(k, w)]) hs d = (Inr ((acc @ [(k, w)]) @ zip (map fst kvs) ws), hs)"
    "parse_list ws = Inr (map (\<lambda>kv. neg_zeros (snd kv)) kvs)" by auto
  from w ws set kv have "length (w # ws) = length (kv # kvs) \<and>
      serialize_items (kv # kvs) acc hs d = (Inr (acc @ zip (map fst (kv # kvs)) (w # ws)), hs) \<and>
      parse_list (w # ws) = Inr (map (\<lambda>kv. neg_zeros (snd kv)) (kv # kvs))" by simp
  then show ?case by blast
qed

lemma dict_get_skip:
  "\<forall>k'\<in>set ks. \<not> key_eq k' k \<Longrightarrow> length ws = length ks \<Longrightarrow>
   dict_get (zip ks ws @ rest) k = dict_get rest k"
proof (induction ks arbitrary: ws)
  case Nil
  then show ?case by simp
next
  case (Cons a ks)
  then show ?case by (cases ws) auto
qed

lemma parse_items_zip:
  "keys_wf (ks1 @ ks2) \<Longrightarrow> length ws1 = length ks1 \<Longrightarrow> length ys1 = length ks1 \<Longrightarrow>
   length ws2 = length ks2 \<Longrightarrow> parse_list ws2 = Inr ys2 \<Longrightarrow>
   parse_items (map key_val ks2) (PDict (zip ks1 ws1 @ zip ks2 ws2)) (zip ks1 ys1) =
     Inr (zip ks1 ys1 @ zip ks2 ys2)"
proof (induction ks2 arbitrary: ks1 ws1 ys1 ws2 ys2)
  case Nil
  then show ?case by simp
next
  case (Cons k ks2)
  from Cons.prems(4) obtain w ws2' where ws2: "ws2 = w # ws2'" and len: "length ws2' = length ks2"
    by (cases ws2) auto
  from Cons.prems(5) ws2 obtain y ys2' where y: "parse_value w = Inr y"
    and ys2': "parse_list ws2' = Inr ys2'" and ys2: "ys2 = y # ys2'"
    by (auto split: sum.splits)
  from Cons.prems(1) have fresh: "\<forall>k'\<in>set ks1. \<not> key_eq k' k"
    by (auto simp: keys_wf_append)
  have get: "dict_get (zip ks1 ws1 @ zip (k # ks2) ws2) k = Some w"
    using dict_get_skip [OF fresh Cons.prems(2)] ws2 by simp
  have "\<forall>k'\<in>set (map fst (zip ks1 ys1)). \<not> key_eq k' k"
    using fresh Cons.prems(3) by simp
  then have set: "dict_set k y (zip ks1 ys1) = zip ks1 ys1 @ [(k, y)]"
    by (rule dict_set_append)
  have key: "as_key (key_val k) = Some k" by (cases k) auto
  from Cons.prems(1) have wf': "keys_wf ((ks1 @ [k]) @ ks2)" by simp
  have "parse_items (map key_val ks2)
          (PDict (zip (ks1 @ [k]) (ws1 @ [w]) @ zip ks2 ws2')) (zip (ks1 @ [k]) (ys1 @ [y])) =
        Inr (zip (ks1 @ [k]) (ys1 @ [y]) @ zip ks2 ys2')"
    by (rule Cons.IH [OF wf' _ _ len ys2']) (simp_all add: Cons.prems)
  then have "parse_items (map key_val ks2)
          (PDict (zip ks1 ws1 @ zip (k # ks2) ws2)) (zip ks1 ys1 @ [(k, y)]) =
        Inr (zip ks1 ys1 @ zip (k # ks2) ys2)"
    using Cons.prems(2,3) ws2 ys2 by simp
  with get y set key show ?case by simp
qed

lemma zip_map_fst_snd:
  "zip (map fst d) (map (\<lambda>kv. f (snd kv)) d) = map (\<lambda>kv. (fst kv, f (snd kv))) d"
  by (induction d) auto

lemma roundtrip_value:
  "plain v \<Longrightarrow> dict_wf v \<Longrightarrow> d + int (nesting v) \<le> 100 \<Longrightarrow>
   \<exists>w. serialize_value v hs d = (Inr w, hs) \<and> parse_value w = Inr (neg_zeros v)"
proof (induction v arbitrary: hs d)
  case (PFloat x)
  then have fin: "isfinite x" and d: "d \<le> 100" by simp_all
  from fin have ne: "x \<noteq> float_inf" "x \<noteq> float_neg_inf" "\<not> isnan x"
    using finite_not_inf finite_not_nan by blast+
  show ?case
  proof (cases "is_zero x")
    case True
    with d ne show ?thesis by simp
  next
    case False
    with d ne show ?thesis by simp
  qed
next
  case (PList xs)
  from PList.prems(3) have d: "\<not> d > 100" by simp
  have "\<exists>ws. serialize_list xs hs (d + 1) = (Inr ws, hs) \<and> parse_list ws = Inr (map neg_zeros xs)"
  proof (rule roundtrip_list)
    fix x hs
    assume x: "x \<in> set xs"
    then have "d + 1 + int (nesting x) \<le> 100"
      using PList.prems(3) nesting_mem_list [OF x] by simp
    with x PList.prems(1,2)
    show "\<exists>w. serialize_value x hs (d + 1) = (Inr w, hs) \<and> parse_value w = Inr (neg_zeros x)"
      using PList.IH [of x "d + 1" hs] by (simp add: list_all_iff)
  qed
  then obtain ws where ws: "serialize_list xs hs (d + 1) = (Inr ws, hs)"
    "parse_list ws = Inr (map neg_zeros xs)" by auto
  with d have "serialize_value (PList xs) hs d = (Inr (PDict [(KStr ''a'', PList ws)]), hs) \<and>
      parse_value (PDict [(KStr ''a'', PList ws)]) = Inr (neg_zeros (PList xs))" by simp
  then show ?case by blast
next
  case (PDict kvs)
  from PDict.prems(3) have d: "\<not> d > 100" by simp
  have "\<exists>ws. length ws = length kvs \<and>
           serialize_items kvs [] hs (d + 1) = (Inr ([] @ zip (map fst kvs) ws), hs) \<and>
           parse_list ws = Inr (map (\<lambda>kv. neg_zeros (snd kv)) kvs)"
  proof (rule roundtrip_items)
    fix x hs
    assume "x \<in> snd ` set kvs"
    then obtain k where kx: "(k, x) \<in> set kvs" by auto
    then have "d + 1 + int (nesting x) \<le> 100"
      using PDict.prems(3) nesting_mem_dict [OF kx] by simp
    moreover from kx PDict.prems(1,2) have "plain x" "dict_wf x"
      by (auto simp: list_all_iff)
    ultimately
    show "\<exists>w. serialize_value x hs (d + 1) = (Inr w, hs) \<and> parse_value w = Inr (neg_zeros x)"
      using PDict.IH [of "(k, x)" x "d + 1" hs] kx by simp
  next
    show "keys_wf (map fst [] @ map fst kvs)" using PDict.prems(2) by simp
  qed
  then obtain ws where len: "length ws = length kvs"
    and ws: "serialize_items kvs [] hs (d + 1) = (Inr (zip (map fst kvs) ws), hs)"
    and p: "parse_list ws = Inr (map (\<lambda>kv. neg_zeros (snd kv)) kvs)" by auto
  have "parse_items (map key_val (map fst kvs)) (PDict (zip [] [] @ zip (map fst kvs) ws)) (zip [] []) =
        Inr (zip [] [] @ zip (map fst kvs) (map (\<lambda>kv. neg_zeros (snd kv)) kvs))"
    by (rule parse_items_zip [OF _ _ _ _ p]) (use PDict.prems(2) len in simp_all)
  then have items: "parse_items (map key_val (map fst kvs)) (PDict (zip (map fst kvs) ws)) [] =
        Inr (map (\<lambda>kv. (fst kv, neg_zeros (snd kv))) kvs)"
    by (simp add: zip_map_fst_snd)
  have names: "map (\<lambda>kv. key_val (fst kv)) (zip (map fst kvs) ws) = map key_val (map fst kvs)"
    using len by (simp add: map_fst_zip flip: map_map [unfolded comp_def])
  from d ws have 1: "serialize_value (PDict kvs) hs d =
      (Inr (PDict [(KStr ''o'', PDict (zip (map fst kvs) ws))]), hs)" by simp
  from items names have 2: "parse_value (PDict [(KStr ''o'', PDict (zip (map fst kvs) ws))]) =
      Inr (neg_zeros (PDict kvs))" by simp
  from 1 2 show ?case by blast
qed simp_all

lemma dict_get_wf:
  "keys_wf (map fst d) \<Longrightarrow> (k, x) \<in> set d \<Longrightarrow> dict_get d k = Some x"
  by (induction d) (auto simp: list_all_iff)

lemma py_eq_neg_zeros: "plain v \<Longrightarrow> dict_wf v \<Longrightarrow> py_eq (neg_zeros v) v"
proof (induction v)
  case (PFloat x)
  then show ?case
    by (auto simp: float_eq_def finite_not_nan is_zero_not_nan)
next
  case (PList xs)
  then show ?case by (auto simp: list_all2_map1 list_all_iff intro: list_all2_all_nthI)
next
  case (PDict kvs)
  have "\<exists>y. dict_get kvs (fst kv) = Some y \<and> py_eq (neg_zeros (snd kv)) y"
    if "kv \<in> set kvs" for kv
  proof -
    obtain k x where kv: "kv = (k, x)" by (cases kv)
    with that PDict.prems have "dict_get kvs k = Some x" "plain x" "dict_wf x"
      by (auto simp: dict_get_wf list_all_iff)
    with kv that show ?thesis using PDict.IH [of kv x] by simp
  qed
  then show ?case by (fastforce simp: list_all_iff split: option.splits)
qed simp_all

lemma plain_nest_lists: "plain (nest (replicate n InList) v) = plain v"
  by (induction n) simp_all

section \<open>Claims on single nodes\<close>

text \<open>
  Claim C7. The test for a \<^verbatim>\<open>JSHandle\<close> comes before the depth test, so encoding a handle
  never raises: at every depth, above 100 as well, \<open>serialize_value\<close> appends the channel of
  the handle to the list of handles and returns the node \<^verbatim>\<open>{h: index}\<close>, where the index is
  the length of the list before the call.
\<close>

theorem handle_never_depth_error:
  "serialize_value (PHandle jh) handles depth =
     (Inr (PDict [(KStr ''h'', PInt (int (length handles)))]), handles @ [h_channel jh])"
  by simp

text \<open>
  Claim C9. A dictionary with none of the keys \<^verbatim>\<open>v\<close>, \<^verbatim>\<open>a\<close>, \<^verbatim>\<open>d\<close> and \<^verbatim>\<open>o\<close> is decoded
  to itself, and the decoder does not raise on it.
\<close>

theorem unknown_tag_unchanged:
  assumes "dict_get d (KStr ''v'') = None" and "dict_get d (KStr ''a'') = None"
    and "dict_get d (KStr ''d'') = None" and "dict_get d (KStr ''o'') = None"
  shows "parse_value (PDict d) = Inr (PDict d)"
  using assms by simp

text \<open>The claim at the dictionary \<^verbatim>\<open>{"x": 1, 3: "v"}\<close>.\<close>

theorem unknown_tag_unchanged_witness:
  "parse_value (PDict [(KStr ''x'', PInt 1), (KInt 3, PStr ''v'')]) =
     Inr (PDict [(KStr ''x'', PInt 1), (KInt 3, PStr ''v'')])"
  by (rule unknown_tag_unchanged) simp_all

text \<open>
  Claim C2, as the code has it. \<open>parse_value\<close> takes no resolver and has no case for the key
  \<^verbatim>\<open>h\<close>: a node \<^verbatim>\<open>{h: index}\<close> is decoded to itself, whatever the index is, and nothing is
  raised.
\<close>

theorem handle_tag_returned_unchanged:
  "parse_value (PDict [(KStr ''h'', index)]) = Inr (PDict [(KStr ''h'', index)])"
  by simp

text \<open>
  Claim C2 as stated fails: the node \<^verbatim>\<open>{h: 0}\<close> is decoded to the dictionary \<^verbatim>\<open>{h: 0}\<close>, not
  to the handle that a resolver gives for the index 0.
\<close>

theorem handle_tag_not_resolved:
  "parse_value (PDict [(KStr ''h'', PInt 0)]) = Inr (PDict [(KStr ''h'', PInt 0)]) \<and>
   parse_value (PDict [(KStr ''h'', PInt 0)]) \<noteq>
     Inr (PHandle \<lparr>h_channel = Channel ''idA'', h_preview = ''JSHandle@object''\<rparr>)"
  by simp

text \<open>
  Claim C10. A string is encoded as itself, untagged, and a bare string is decoded to itself,
  whatever its text; so a string that spells a sentinel comes back as that string. Only under
  the key \<^verbatim>\<open>v\<close> does the decoder read a sentinel as something else.
\<close>

theorem sentinel_strings_roundtrip:
  assumes "depth \<le> 100"
  shows "serialize_value (PStr s) handles depth = (Inr (PStr s), handles) \<and>
         parse_value (PStr s) = Inr (PStr s) \<and>
         (s \<in> set sentinel_names \<longrightarrow>
            parse_value (PDict [(KStr ''v'', PStr s)]) \<noteq> Inr (PStr s))"
  using assms by (auto simp: sentinel_names_def)

text \<open>The claim at the string \<^verbatim>\<open>"Infinity"\<close>, at depth 0.\<close>

theorem sentinel_strings_roundtrip_witness:
  "serialize_value (PStr ''Infinity'') [] 0 = (Inr (PStr ''Infinity''), []) \<and>
   parse_value (PStr ''Infinity'') = Inr (PStr ''Infinity'') \<and>
   parse_value (PDict [(KStr ''v'', PStr ''Infinity'')]) \<noteq> Inr (PStr ''Infinity'')"
  using sentinel_strings_roundtrip [of 0 "''Infinity''" "[]"] by (simp add: sentinel_names_def)

text \<open>
  Claim C8. Up to the depth ceiling, \<^verbatim>\<open>None\<close> and every value of a kind the encoder does not
  recognise are encoded as \<^verbatim>\<open>{v: "undefined"}\<close>, without raising; \<^verbatim>\<open>{v: "undefined"}\<close> and
  \<^verbatim>\<open>{v: "null"}\<close> are both decoded to \<^verbatim>\<open>None\<close>.
\<close>

theorem absent_and_unrecognized:
  assumes "depth \<le> 100"
  shows "serialize_value PNone handles depth = (Inr undefined_node, handles) \<and>
         (unrecognized v \<longrightarrow> serialize_value v handles depth = (Inr undefined_node, handles)) \<and>
         parse_value undefined_node = Inr PNone \<and>
         parse_value (PDict [(KStr ''v'', PStr ''null'')]) = Inr PNone"
  using assms by (cases v) (simp_all add: undefined_node_def)

text \<open>The claim at depth 0, with the tuple \<^verbatim>\<open>(1, 2)\<close> as the unrecognised value.\<close>

theorem absent_and_unrecognized_witness:
  "serialize_value PNone [] 0 = (Inr undefined_node, []) \<and>
   serialize_value (PTuple [PInt 1, PInt 2]) [] 0 = (Inr undefined_node, []) \<and>
   parse_value undefined_node = Inr PNone \<and>
   parse_value (PDict [(KStr ''v'', PStr ''null'')]) = Inr PNone"
  using absent_and_unrecognized [of 0 "[]" "PTuple [PInt 1, PInt 2]"] by simp

section \<open>Special floats and timestamps\<close>

text \<open>
  What holds of the special floats. Up to the depth ceiling the two infinities, negative zero
  and every NaN are encoded as their sentinels, a finite float other than zero is returned as
  it is, and every zero, positive zero too, is encoded as \<^verbatim>\<open>{v: "-0"}\<close>.
\<close>

lemma special_floats_encoded:
  assumes "depth \<le> 100"
  shows "serialize_value (PFloat float_inf) hs depth = (Inr (PDict [(KStr ''v'', PStr ''Infinity'')]), hs)"
    and "serialize_value (PFloat float_neg_inf) hs depth = (Inr (PDict [(KStr ''v'', PStr ''-Infinity'')]), hs)"
    and "serialize_value (PFloat float_neg_zero) hs depth = (Inr (PDict [(KStr ''v'', PStr ''-0'')]), hs)"
    and "isnan x \<Longrightarrow> serialize_value (PFloat x) hs depth = (Inr (PDict [(KStr ''v'', PStr ''NaN'')]), hs)"
    and "isfinite x \<Longrightarrow> \<not> is_zero x \<Longrightarrow> serialize_value (PFloat x) hs depth = (Inr (PFloat x), hs)"
    and "is_zero x \<Longrightarrow> serialize_value (PFloat x) hs depth = (Inr (PDict [(KStr ''v'', PStr ''-0'')]), hs)"
  using assms
  by (auto simp: finite_not_nan finite_not_inf is_zero_not_nan float_eq_def)

text \<open>
  The four sentinels are decoded to the floats of lines 150 to 156; the NaN is a NaN and the
  zero has its sign bit set (\<open>float_consts\<close>).
\<close>

lemma sentinels_decoded:
  "parse_value (PDict [(KStr ''v'', PStr ''Infinity'')]) = Inr (PFloat float_inf)"
  "parse_value (PDict [(KStr ''v'', PStr ''-Infinity'')]) = Inr (PFloat float_neg_inf)"
  "parse_value (PDict [(KStr ''v'', PStr ''-0'')]) = Inr (PFloat float_neg_zero)"
  "parse_value (PDict [(KStr ''v'', PStr ''NaN'')]) = Inr (PFloat float_nan)"
  by simp_all

text \<open>
  Claim C3, at the input where the code departs from it. The test of line 114,
  \<^verbatim>\<open>value == float("-0")\<close>, holds for positive zero as well, since the two zeros are equal:
  \<^verbatim>\<open>0.0\<close> does not fall through to the raw number, it is encoded as \<^verbatim>\<open>{v: "-0"}\<close>, and
  decoding gives negative zero, whose sign bit differs.
\<close>

theorem positive_zero_encoded_as_negative_zero:
  "serialize_value (PFloat float_pos_zero) [] 0 = (Inr (PDict [(KStr ''v'', PStr ''-0'')]), []) \<and>
   parse_value (PDict [(KStr ''v'', PStr ''-0'')]) = Inr (PFloat float_neg_zero) \<and>
   sign_bit float_neg_zero \<and> \<not> sign_bit float_pos_zero"
  by simp

text \<open>
  Claim C4, at the input where the code departs from it. Line 121 formats the timestamp in
  its own zone and appends \<^verbatim>\<open>Z\<close>: the instant is not re-expressed in UTC, the text keeps the
  offset \<^verbatim>\<open>+05:00\<close> in front of the \<^verbatim>\<open>Z\<close>, and decoding gives back the timestamp with an
  offset of five hours, not zero.
\<close>

theorem timestamp_keeps_its_offset:
  "serialize_value (PDatetime example_timestamp) [] 0 =
     (Inr (PDict [(KStr ''d'', PStr ''2020-01-02T12:30:45.123456+05:00Z'')]), []) \<and>
   parse_value (PDict [(KStr ''d'', PStr ''2020-01-02T12:30:45.123456+05:00Z'')]) =
     Inr (PDatetime example_timestamp) \<and>
   utcoffset example_timestamp = Some 18000000000"
  by (simp add: isoformat_example fromisoformat_example) (simp add: example_timestamp_def)

section \<open>The depth ceiling\<close>

text \<open>
  Claim C5. For a value that is not a handle: nested 101 levels deep, its encoding raises the
  depth error, from \<open>serialize_value\<close> at depth 0 and from \<open>serialize_argument\<close>, which then
  returns no envelope; nested exactly 100 levels deep, with nothing nested in the value
  itself, the encoding returns; and at every depth above 100 the error comes whatever the
  value contains, since the depth is tested before the content is looked at.
\<close>

theorem depth_limit:
  assumes "\<not> is_handle v"
  shows "(length ls = 101 \<longrightarrow>
            serialize_value (nest ls v) handles 0 = (Inl depth_error, handles) \<and>
            serialize_argument (nest ls v) = Inl depth_error) \<and>
         (length ls = 100 \<and> childless v \<longrightarrow>
            (\<exists>w. serialize_value v handles 100 = (Inr w, handles) \<and>
                  serialize_value (nest ls v) handles 0 = (Inr (wire_nest ls w), handles)) \<and>
            (\<exists>w. serialize_argument (nest ls v) =
                    Inr \<lparr>arg_value = wire_nest ls w, arg_handles = []\<rparr>)) \<and>
         (depth > 100 \<longrightarrow> serialize_value v handles depth = (Inl depth_error, handles))"
proof (intro conjI impI)
  assume "length ls = 101"
  then show "serialize_value (nest ls v) handles 0 = (Inl depth_error, handles)"
    using nest_raises [OF assms, of 0 ls handles] by simp
next
  assume "length ls = 101"
  then have "serialize_value (nest ls v) [] 0 = (Inl depth_error, [])"
    using nest_raises [OF assms, of 0 ls "[]"] by simp
  then show "serialize_argument (nest ls v) = Inl depth_error"
    by (simp add: serialize_argument_def)
next
  assume a: "length ls = 100 \<and> childless v"
  then obtain w where w: "serialize_value v handles 100 = (Inr w, handles)"
    using childless_returns [OF assms, of 100 handles] by auto
  with a have "serialize_value (nest ls v) handles 0 = (Inr (wire_nest ls w), handles)"
    using nest_returns [of 0 ls v handles w handles] by simp
  with w show "\<exists>w. serialize_value v handles 100 = (Inr w, handles) \<and>
      serialize_value (nest ls v) handles 0 = (Inr (wire_nest ls w), handles)"
    by blast
next
  assume a: "length ls = 100 \<and> childless v"
  then obtain w where w: "serialize_value v [] 100 = (Inr w, [])"
    using childless_returns [OF assms, of 100 "[]"] by auto
  with a have "serialize_value (nest ls v) [] 0 = (Inr (wire_nest ls w), [])"
    using nest_returns [of 0 ls v "[]" w "[]"] by simp
  then show "\<exists>w. serialize_argument (nest ls v) =
      Inr \<lparr>arg_value = wire_nest ls w, arg_handles = []\<rparr>"
    by (auto simp: serialize_argument_def)
next
  assume "depth > 100"
  with assms show "serialize_value v handles depth = (Inl depth_error, handles)"
    by (rule depth_check_first)
qed

text \<open>The claim at the integer 7 under 101 and under 100 lists.\<close>

theorem depth_limit_witness:
  "serialize_value (nest (replicate 101 InList) (PInt 7)) [] 0 = (Inl depth_error, []) \<and>
   serialize_argument (nest (replicate 101 InList) (PInt 7)) = Inl depth_error \<and>
   (\<exists>w. serialize_value (PInt 7) [] 100 = (Inr w, []) \<and>
      serialize_value (nest (replicate 100 InList) (PInt 7)) [] 0 =
        (Inr (wire_nest (replicate 100 InList) w), [])) \<and>
   (\<exists>w. serialize_argument (nest (replicate 100 InList) (PInt 7)) =
      Inr \<lparr>arg_value = wire_nest (replicate 100 InList) w, arg_handles = []\<rparr>) \<and>
   serialize_value (PInt 7) [] 101 = (Inl depth_error, [])"
  using depth_limit [where v = "PInt 7" and ls = "replicate 101 InList" and handles = "[]" and depth = 101]
    depth_limit [where v = "PInt 7" and ls = "replicate 100 InList" and handles = "[]" and depth = 101]
  by simp

section \<open>Handles\<close>

text \<open>
  Claim C6. When \<open>serialize_argument\<close> returns, the list of handles holds the channels of
  the handles of the argument in depth-first order from left to right, duplicates included;
  the indices of the handle-tag nodes of the wire value are \<open>0, 1, 2, ...\<close> in the same order,
  so the node of each handle carries the position at which its channel stands in the list,
  and every index is a valid position in it. A list of two handles, equal or not, gives
  \<^verbatim>\<open>{a: [{h: 0}, {h: 1}]}\<close> with the two channels.
\<close>

theorem handle_indices:
  assumes "dict_wf v" and "serialize_argument v = Inr r"
  shows "arg_handles r = handle_refs v \<and>
         wire_indices (arg_value r) = map int [0..<length (arg_handles r)] \<and>
         map (\<lambda>i. arg_handles r ! nat i) (wire_indices (arg_value r)) = handle_refs v \<and>
         (\<forall>i\<in>set (wire_indices (arg_value r)). 0 \<le> i \<and> i < int (length (arg_handles r))) \<and>
         (\<forall>a b. serialize_argument (PList [PHandle a, PHandle b]) =
            Inr \<lparr>arg_value = PDict [(KStr ''a'',
                     PList [PDict [(KStr ''h'', PInt 0)], PDict [(KStr ''h'', PInt 1)]])],
                 arg_handles = [h_channel a, h_channel b]\<rparr>)"
proof -
  from assms(2) obtain w hs where s: "serialize_value v [] 0 = (Inr w, hs)"
    and r: "r = \<lparr>arg_value = w, arg_handles = hs\<rparr>"
    by (auto simp: serialize_argument_def split: prod.splits sum.splits)
  from serialize_value_indices [OF assms(1) s]
  have 1: "hs = handle_refs v" and 2: "wire_indices w = map int [0..<length hs]" by simp_all
  have 3: "map (\<lambda>i. hs ! nat i) (map int [0..<length hs]) = hs"
    by (simp add: comp_def map_nth)
  have 4: "\<forall>i\<in>set (map int [0..<length hs]). 0 \<le> i \<and> i < int (length hs)" by auto
  have 5: "\<forall>a b. serialize_argument (PList [PHandle a, PHandle b]) =
            Inr \<lparr>arg_value = PDict [(KStr ''a'',
                     PList [PDict [(KStr ''h'', PInt 0)], PDict [(KStr ''h'', PInt 1)]])],
                 arg_handles = [h_channel a, h_channel b]\<rparr>"
    by (simp add: serialize_argument_def)
  from 1 2 3 4 5 r show ?thesis by simp
qed

text \<open>The claim at \<^verbatim>\<open>[refA, {"x": refA}]\<close>, where the same handle occurs twice.\<close>

theorem handle_indices_witness:
  "serialize_argument (PList [PHandle ref_a, PDict [(KStr ''x'', PHandle ref_a)]]) =
     Inr \<lparr>arg_value = PDict [(KStr ''a'', PList [PDict [(KStr ''h'', PInt 0)],
              PDict [(KStr ''o'', PDict [(KStr ''x'', PDict [(KStr ''h'', PInt 1)])])]])],
          arg_handles = [Channel ''idA'', Channel ''idA'']\<rparr> \<and>
   handle_refs (PList [PHandle ref_a, PDict [(KStr ''x'', PHandle ref_a)]]) =
     [Channel ''idA'', Channel ''idA''] \<and>
   wire_indices (PDict [(KStr ''a'', PList [PDict [(KStr ''h'', PInt 0)],
              PDict [(KStr ''o'', PDict [(KStr ''x'', PDict [(KStr ''h'', PInt 1)])])]])]) = [0, 1]"
proof -
  let ?v = "PList [PHandle ref_a, PDict [(KStr ''x'', PHandle ref_a)]]"
  let ?r = "\<lparr>arg_value = PDict [(KStr ''a'', PList [PDict [(KStr ''h'', PInt 0)],
              PDict [(KStr ''o'', PDict [(KStr ''x'', PDict [(KStr ''h'', PInt 1)])])]])],
          arg_handles = [Channel ''idA'', Channel ''idA'']\<rparr>"
  have wf: "dict_wf ?v" by simp
  have s: "serialize_argument ?v = Inr ?r"
    by (simp add: serialize_argument_def ref_a_def)
  from handle_indices [OF wf s] s show ?thesis
    by (simp add: upt_rec)
qed

section \<open>The round trip\<close>

text \<open>
  Claim C1, within the depth ceiling. For a value made of booleans, integers, finite floats,
  strings, lists and dictionaries with text keys, nested at most 100 levels deep, the encoder
  returns at depth 0 and leaves the list of handles as it was, and decoding what it returns
  gives a value equal to the original. The decoded value is the original with every float
  zero as negative zero (\<open>roundtrip_value\<close>), which \<^verbatim>\<open>==\<close> does not tell from it.
\<close>

theorem roundtrip:
  assumes "plain v" and "dict_wf v" and "nesting v \<le> 100"
  shows "\<exists>w r. serialize_value v handles 0 = (Inr w, handles) \<and>
               parse_value w = Inr r \<and> py_eq r v"
proof -
  from assms(3) have "0 + int (nesting v) \<le> 100" by simp
  with assms(1,2) obtain w where "serialize_value v handles 0 = (Inr w, handles)"
    and "parse_value w = Inr (neg_zeros v)"
    using roundtrip_value [of v 0 handles] by blast
  moreover from assms(1,2) have "py_eq (neg_zeros v) v" by (rule py_eq_neg_zeros)
  ultimately show ?thesis by blast
qed

text \<open>The claim at \<open>example_value\<close>, which holds a positive zero and a sentinel text.\<close>

theorem roundtrip_witness:
  "\<exists>w r. serialize_value example_value [] 0 = (Inr w, []) \<and>
         parse_value w = Inr r \<and> py_eq r example_value"
  using roundtrip [of example_value "[]"]
  by (simp add: example_value_def is_zero_finite)

text \<open>
  Claim C1 as stated fails: the integer 7 under 101 lists is a value of the claim, and its
  encoding raises the depth error, so there is nothing to decode.
\<close>

theorem deep_list_not_encoded:
  "plain (nest (replicate 101 InList) (PInt 7)) \<and>
   serialize_value (nest (replicate 101 InList) (PInt 7)) [] 0 = (Inl depth_error, [])"
  using nest_raises [of "PInt 7" 0 "replicate 101 InList" "[]"]
  by (simp add: plain_nest_lists)

end
